theory Spec2Isabelle
  imports Main "HOL-Library.Word"
begin

unbundle bit_operations_syntax

section \<open>Token tracker of the AVM: ledger, ledger codec, block-reason codec\<close>

text \<open>
  A shallow embedding of \<^verbatim>\<open>packages/arb-avm-cpp/avm/src/tokenTracker.cpp\<close>.
  Byte buffers (\<^verbatim>\<open>std::vector<unsigned char>\<close>) are byte lists, iterators are
  offsets into them, \<^verbatim>\<open>uint256_t\<close> is a 256-bit word (arithmetic wraps),
  \<^verbatim>\<open>std::unordered_map\<close> is an association list whose order stands for the
  unspecified iteration order, \<^verbatim>\<open>std::unordered_set\<close> is a set.
  Exceptions and undefined behaviour are values of the type \<open>error\<close>.
\<close>

subsection \<open>Basic types\<close>

type_synonym byte = "8 word"
type_synonym uint256_t = "256 word"

text \<open>\<^verbatim>\<open>TokenType\<close> is \<^verbatim>\<open>std::array<unsigned char, 21>\<close>: a byte list that is
  well formed when it has 21 elements.\<close>

type_synonym TokenType = "byte list"

definition wf_TokenType :: "TokenType \<Rightarrow> bool" where
  "wf_TokenType tok = (length tok = 21)"

text \<open>What a call can end in besides a value: \<open>OutOfRange\<close> is the exception
  \<^verbatim>\<open>std::out_of_range\<close> of \<^verbatim>\<open>unordered_map::at\<close>; \<open>AssertionFailed\<close> is a failed
  \<^verbatim>\<open>assert\<close>; \<open>OutOfBounds\<close> is a read past the end of a buffer and
  \<open>MissingReturn\<close> is control leaving a value-returning function without a
  \<^verbatim>\<open>return\<close> (both undefined behaviour in C++).\<close>

datatype error = OutOfRange | AssertionFailed | OutOfBounds | MissingReturn

subsection \<open>Big-endian integers (bigint utilities)\<close>

text \<open>Modelled from the spec: \<^verbatim>\<open>to_big_endian\<close> and \<^verbatim>\<open>from_big_endian\<close> of
  \<^verbatim>\<open>bigint_utils.hpp\<close>, which is not part of the sources at hand. The spec
  fixes a 32-byte big-endian form of a 256-bit unsigned integer.\<close>

fun be_bytes :: "nat \<Rightarrow> uint256_t \<Rightarrow> byte list" where
  "be_bytes 0 x = []"
| "be_bytes (Suc n) x = be_bytes n (drop_bit 8 x) @ [ucast x]"

definition to_big_endian :: "uint256_t \<Rightarrow> byte list" where
  "to_big_endian v = be_bytes 32 v"

definition from_big_endian :: "byte list \<Rightarrow> uint256_t" where
  "from_big_endian bs = foldl (\<lambda>acc b. push_bit 8 acc OR ucast b) 0 bs"

text \<open>Modelled from the spec: the format byte that \<^verbatim>\<open>marshal_uint256_t\<close> writes
  in front of the magnitude (its value belongs to the integer codec, which is
  not part of the sources at hand).\<close>

definition NUM :: byte where
  "NUM = 0"

text \<open>Modelled from the spec: \<^verbatim>\<open>marshal_uint256_t(val, buf)\<close> of the integer codec,
  not part of the sources at hand. It appends the 33-byte encoding of \<open>val\<close> to
  \<open>buf\<close>: one format byte, then the 32-byte big-endian magnitude.\<close>

definition marshal_uint256_t :: "uint256_t \<Rightarrow> byte list \<Rightarrow> byte list" where
  "marshal_uint256_t val buf = buf @ [NUM] @ to_big_endian val"

text \<open>Modelled from the spec: \<^verbatim>\<open>deserialize_int256(buff)\<close> of the integer codec,
  not part of the sources at hand: the unmarshalling from a 33-byte buffer, one
  format byte and a 32-byte big-endian magnitude. The argument is the vector
  that \<open>buff\<close> points into; a vector shorter than the encoding is read past its
  end.\<close>

definition deserialize_int256 :: "byte list \<Rightarrow> error + uint256_t" where
  "deserialize_int256 buff =
     (if length buff < 33 then Inl OutOfBounds
      else Inr (from_big_endian (take 32 (drop 1 buff))))"

text \<open>The range constructor of a vector and \<^verbatim>\<open>std::copy\<close>, reading the bytes
  \<open>[first_it, last_it)\<close> of a buffer through iterators: nothing checks the range.\<close>

definition read_range :: "byte list \<Rightarrow> nat \<Rightarrow> nat \<Rightarrow> error + byte list" where
  "read_range dat first_it last_it =
     (if first_it \<le> last_it \<and> last_it \<le> length dat
      then Inr (take (last_it - first_it) (drop first_it dat))
      else Inl OutOfBounds)"

subsection \<open>Token identities\<close>

definition isToken :: "TokenType \<Rightarrow> bool" where
  "isToken tok = (tok ! 20 = 0)"

definition fromTokenType :: "TokenType \<Rightarrow> uint256_t" where
  "fromTokenType tok =
     (let val = replicate 32 (0 :: byte);
          val = tok @ drop (length tok) val
      in from_big_endian val)"

definition toTokenType :: "uint256_t \<Rightarrow> TokenType" where
  "toTokenType tokTypeVal = (let val = to_big_endian tokTypeVal in take 21 val)"

subsection \<open>Messages\<close>

text \<open>Modelled from the spec: the generic tagged value of the machine (declared
  outside the sources at hand), holding an integer, an opaque payload or an
  ordered structure of values.\<close>

datatype avm_value = Num uint256_t | CodePoint nat | Tuple "avm_value list"

record Message =
  data :: avm_value
  destination :: uint256_t
  currency :: uint256_t
  token :: TokenType

text \<open>\<^verbatim>\<open>Message::deserialize\<close>: the result and the message after the call.\<close>

definition Message_deserialize :: "Message \<Rightarrow> avm_value \<Rightarrow> bool \<times> Message" where
  "Message_deserialize m val =
     (case val of
        Tuple msgTup \<Rightarrow>
          if length msgTup \<noteq> 4 then (False, m)
          else (case msgTup ! 1 of
                  Num destInt \<Rightarrow>
                    (case msgTup ! 2 of
                       Num currencyAmountInt \<Rightarrow>
                         (case msgTup ! 3 of
                            Num tokTypeInt \<Rightarrow>
                              (True, m\<lparr>data := msgTup ! 0,
                                       destination := destInt,
                                       currency := currencyAmountInt,
                                       token := toTokenType tokTypeInt\<rparr>)
                          | _ \<Rightarrow> (False, m))
                     | _ \<Rightarrow> (False, m))
                | _ \<Rightarrow> (False, m))
      | _ \<Rightarrow> (False, m))"

definition Message_toValue :: "Message \<Rightarrow> avm_value" where
  "Message_toValue m =
     Tuple [data m, Num (destination m), Num (currency m), Num (fromTokenType (token m))]"

subsection \<open>The balance tracker\<close>

record nftKey =
  tokenType :: TokenType
  intVal :: uint256_t

text \<open>The operations of \<^verbatim>\<open>std::unordered_map\<close> that the tracker uses.\<close>

type_synonym ('k, 'v) umap = "('k \<times> 'v) list"

definition umap_at :: "('k, 'v) umap \<Rightarrow> 'k \<Rightarrow> error + 'v" where
  "umap_at m k = (case map_of m k of None \<Rightarrow> Inl OutOfRange | Some v \<Rightarrow> Inr v)"

definition umap_insert :: "('k, 'v) umap \<Rightarrow> 'k \<times> 'v \<Rightarrow> ('k, 'v) umap" where
  "umap_insert m kv = (if fst kv \<in> fst ` set m then m else m @ [kv])"

definition umap_modify :: "('k, 'v) umap \<Rightarrow> 'k \<Rightarrow> ('v \<Rightarrow> 'v) \<Rightarrow> ('k, 'v) umap" where
  "umap_modify m k f = map (\<lambda>(k', v). if k' = k then (k', f v) else (k', v)) m"

record BalanceTracker =
  tokenLookup :: "(TokenType, uint256_t) umap"
  nftLookup :: "nftKey set"

definition BalanceTracker_empty :: BalanceTracker where
  "BalanceTracker_empty = \<lparr>tokenLookup = [], nftLookup = {}\<rparr>"

text \<open>The three queries are \<^verbatim>\<open>const\<close> member functions; like \<^verbatim>\<open>spend\<close> they
  return their outcome together with the tracker as it is after the call. An
  \<^verbatim>\<open>assert\<close> is modelled as compiled in: when its condition fails the call ends
  in \<open>AssertionFailed\<close>.\<close>

definition tokenValue :: "BalanceTracker \<Rightarrow> TokenType \<Rightarrow> (error + uint256_t) \<times> BalanceTracker" where
  "tokenValue L tokType =
     (if \<not> isToken tokType then (Inl AssertionFailed, L)
      else (umap_at (tokenLookup L) tokType, L))"

definition hasNFT :: "BalanceTracker \<Rightarrow> TokenType \<Rightarrow> uint256_t \<Rightarrow> (error + bool) \<times> BalanceTracker" where
  "hasNFT L tokType ident =
     (if isToken tokType then (Inl AssertionFailed, L)
      else (let key = \<lparr>tokenType = tokType, intVal = ident\<rparr>
            in (Inr (key \<in> nftLookup L), L)))"

definition canSpend :: "BalanceTracker \<Rightarrow> TokenType \<Rightarrow> uint256_t \<Rightarrow> (error + bool) \<times> BalanceTracker" where
  "canSpend L tokType amount =
     (if isToken tokType then
        (case tokenValue L tokType of
           (Inl e, L') \<Rightarrow> (Inl e, L')
         | (Inr v, L') \<Rightarrow> (Inr (amount \<le> v), L'))
      else hasNFT L tokType amount)"

definition spend :: "BalanceTracker \<Rightarrow> TokenType \<Rightarrow> uint256_t \<Rightarrow> (error + bool) \<times> BalanceTracker" where
  "spend L tokType amount =
     (case canSpend L tokType amount of
        (Inl e, L') \<Rightarrow> (Inl e, L')
      | (Inr ok, L') \<Rightarrow>
          if \<not> ok then (Inr False, L')
          else if isToken tokType then
            (Inr True,
             L'\<lparr>tokenLookup :=
                  umap_modify (umap_insert (tokenLookup L') (tokType, 0)) tokType
                    (\<lambda>v. v - amount)\<rparr>)
          else
            (let key = \<lparr>tokenType = tokType, intVal = amount\<rparr>
             in (Inr True, L'\<lparr>nftLookup := nftLookup L' - {key}\<rparr>)))"

definition add :: "BalanceTracker \<Rightarrow> TokenType \<Rightarrow> uint256_t \<Rightarrow> BalanceTracker" where
  "add L tokType amount =
     (if isToken tokType then
        L\<lparr>tokenLookup :=
            umap_modify (umap_insert (tokenLookup L) (tokType, 0)) tokType
              (\<lambda>v. v + amount)\<rparr>
      else
        (let key = \<lparr>tokenType = tokType, intVal = amount\<rparr>
         in L\<lparr>nftLookup := insert key (nftLookup L)\<rparr>))"

subsection \<open>The ledger codec\<close>

text \<open>The count header: \<^verbatim>\<open>(unsigned int)tokenLookup.size()\<close> copied with
  \<^verbatim>\<open>memcpy\<close>. An \<^verbatim>\<open>unsigned int\<close> is taken to be four bytes wide, as the spec
  has it, in the byte order of the host (little-endian here; the decoder below
  skips \<^verbatim>\<open>sizeof(unsigned int)\<close> bytes and never looks at them).\<close>

definition length_vector :: "nat \<Rightarrow> byte list" where
  "length_vector n =
     (let len = (of_nat n :: 32 word)
      in [ucast len, ucast (drop_bit 8 len), ucast (drop_bit 16 len), ucast (drop_bit 24 len)])"

definition serialize_pair :: "TokenType \<times> uint256_t \<Rightarrow> byte list" where
  "serialize_pair pair = fst pair @ marshal_uint256_t (snd pair) []"

definition serializeBalanceValues :: "BalanceTracker \<Rightarrow> byte list" where
  "serializeBalanceValues L =
     length_vector (length (tokenLookup L)) @ concat (map serialize_pair (tokenLookup L))"

text \<open>The loop of the decoding constructor; \<open>current_it\<close> is the offset of the
  iterator into the buffer \<open>dat\<close>, and the loop runs while it differs from the end.\<close>

function decode_loop :: "byte list \<Rightarrow> nat \<Rightarrow> BalanceTracker \<Rightarrow> error + BalanceTracker" where
  "decode_loop dat current_it L =
     (if current_it = length dat then Inr L
      else
        (case read_range dat current_it (current_it + 21) of
           Inl e \<Rightarrow> Inl e
         | Inr token_type \<Rightarrow>
             (case read_range dat (current_it + 21) (current_it + 21 + 33) of
                Inl e \<Rightarrow> Inl e
              | Inr value_vector \<Rightarrow>
                  (case deserialize_int256 value_vector of
                     Inl e \<Rightarrow> Inl e
                   | Inr currency_val \<Rightarrow>
                       decode_loop dat (current_it + 21 + 33) (add L token_type currency_val)))))"
  by pat_completeness auto
termination
  by (relation "measure (\<lambda>(dat, current_it, L). length dat - current_it)")
     (auto simp: read_range_def split: if_splits)

declare decode_loop.simps [simp del]

definition BalanceTracker_from :: "byte list \<Rightarrow> error + BalanceTracker" where
  "BalanceTracker_from dat = decode_loop dat 4 BalanceTracker_empty"

subsection \<open>Block reasons and their codec\<close>

text \<open>Modelled from the spec: the enumeration \<^verbatim>\<open>BlockType\<close> and the variants of
  \<^verbatim>\<open>BlockReason\<close> are declared in \<^verbatim>\<open>tokenTracker.hpp\<close>, which is not part of the
  sources at hand. The six tags are numbered in the order of the table
  \<^verbatim>\<open>blockreason_type_length\<close>; the \<^verbatim>\<open>type\<close> member of a variant is its own tag.\<close>

datatype BlockType = Not | Halt | Error | Breakpoint | Inbox | Send

fun BlockType_code :: "BlockType \<Rightarrow> byte" where
  "BlockType_code Not = 0"
| "BlockType_code Halt = 1"
| "BlockType_code Error = 2"
| "BlockType_code Breakpoint = 3"
| "BlockType_code Inbox = 4"
| "BlockType_code Send = 5"

definition to_BlockType :: "byte \<Rightarrow> BlockType option" where
  "to_BlockType b =
     (if b = 0 then Some Not else if b = 1 then Some Halt
      else if b = 2 then Some Error else if b = 3 then Some Breakpoint
      else if b = 4 then Some Inbox else if b = 5 then Some Send else None)"

datatype BlockReason =
    NotBlocked
  | HaltBlocked
  | ErrorBlocked
  | BreakpointBlocked
  | InboxBlocked uint256_t
  | SendBlocked uint256_t TokenType

fun reason_type :: "BlockReason \<Rightarrow> BlockType" where
  "reason_type NotBlocked = Not"
| "reason_type HaltBlocked = Halt"
| "reason_type ErrorBlocked = Error"
| "reason_type BreakpointBlocked = Breakpoint"
| "reason_type (InboxBlocked inbox) = Inbox"
| "reason_type (SendBlocked amount tok) = Send"

fun SerializeBlockReason :: "BlockReason \<Rightarrow> byte list" where
  "SerializeBlockReason NotBlocked = [BlockType_code Not]"
| "SerializeBlockReason HaltBlocked = [BlockType_code Halt]"
| "SerializeBlockReason ErrorBlocked = [BlockType_code Error]"
| "SerializeBlockReason BreakpointBlocked = [BlockType_code Breakpoint]"
| "SerializeBlockReason (InboxBlocked inbox) =
     [BlockType_code Inbox] @ marshal_uint256_t inbox []"
| "SerializeBlockReason (SendBlocked amount tok) =
     [BlockType_code Send] @ marshal_uint256_t amount [] @ tok"

fun blockreason_type_length :: "BlockType \<Rightarrow> nat" where
  "blockreason_type_length Not = 1"
| "blockreason_type_length Halt = 1"
| "blockreason_type_length Error = 1"
| "blockreason_type_length Breakpoint = 1"
| "blockreason_type_length Inbox = 34"
| "blockreason_type_length Send = 55"

text \<open>\<^verbatim>\<open>deserializeBlockReason\<close>: the tag is read through the begin iterator
  with no check that the buffer has a byte; a byte that is no enumerator
  matches no \<^verbatim>\<open>case\<close>, and the function ends without returning.\<close>

definition deserializeBlockReason :: "byte list \<Rightarrow> error + BlockReason" where
  "deserializeBlockReason dat =
     (case dat of
        [] \<Rightarrow> Inl OutOfBounds
      | b # _ \<Rightarrow>
          (let current_it = (1 :: nat) in
           case to_BlockType b of
             Some Inbox \<Rightarrow>
               (case read_range dat (current_it + 1) (current_it + 32) of
                  Inl e \<Rightarrow> Inl e
                | Inr inbox_vector \<Rightarrow>
                    (case deserialize_int256 inbox_vector of
                       Inl e \<Rightarrow> Inl e
                     | Inr inbox \<Rightarrow> Inr (InboxBlocked inbox)))
           | Some Send \<Rightarrow>
               (case read_range dat (current_it + 1) (current_it + 32) of
                  Inl e \<Rightarrow> Inl e
                | Inr currency_vector \<Rightarrow>
                    (case deserialize_int256 currency_vector of
                       Inl e \<Rightarrow> Inl e
                     | Inr currency_val \<Rightarrow>
                         (case read_range dat (current_it + 33) (current_it + 33 + 21) of
                            Inl e \<Rightarrow> Inl e
                          | Inr token_type \<Rightarrow> Inr (SendBlocked currency_val token_type))))
           | Some Not \<Rightarrow> Inr NotBlocked
           | Some Halt \<Rightarrow> Inr HaltBlocked
           | Some Error \<Rightarrow> Inr ErrorBlocked
           | Some Breakpoint \<Rightarrow> Inr BreakpointBlocked
           | None \<Rightarrow> Inl MissingReturn))"

subsection \<open>Two token identities used in examples\<close>

text \<open>The fungible identity of 21 zero bytes, and a non-fungible identity whose
  last byte is 1.\<close>

definition zero_token :: TokenType where
  "zero_token = replicate 21 0"

definition nft_example :: TokenType where
  "nft_example = [0,0,0,0,0, 0,0,0,0,0, 0,0,0,0,0, 0,0,0,0,0, 1]"

text \<open>A tracker holding 100 units of the fungible identity.\<close>

definition ledger_example :: BalanceTracker where
  "ledger_example = \<lparr>tokenLookup = [(zero_token, 100)], nftLookup = {}\<rparr>"

text \<open>A message whose fields all differ from what a decoded value would set.\<close>

definition message_example :: Message where
  "message_example = \<lparr>data = Num 7, destination = 1, currency = 2, token = zero_token\<rparr>"

section \<open>Properties\<close>

subsection \<open>Big-endian bytes\<close>

lemma length_be_bytes: "length (be_bytes k x) = k"
  by (induction k x rule: be_bytes.induct) simp_all

lemma from_big_endian_snoc:
  "from_big_endian (bs @ [b]) = push_bit 8 (from_big_endian bs) OR ucast b"
  by (simp add: from_big_endian_def)

lemma from_big_endian_be_bytes:
  "from_big_endian (be_bytes k x) = take_bit (8 * k) x"
proof (induction k x rule: be_bytes.induct)
  case (1 x)
  then show ?case by (simp add: from_big_endian_def)
next
  case (2 k x)
  show ?case
    unfolding be_bytes.simps from_big_endian_snoc 2
    by (rule bit_word_eqI) (auto simp: bit_simps)
qed

text \<open>The \<open>k\<close> bytes depend on the low \<open>8 * k\<close> bits only.\<close>

lemma be_bytes_cong:
  "take_bit (8 * k) x = take_bit (8 * k) y \<Longrightarrow> be_bytes k x = be_bytes k y"
proof (induction k x arbitrary: y rule: be_bytes.induct)
  case (1 x)
  then show ?case by simp
next
  case (2 k x)
  have bits: "\<And>i. i < 8 + 8 * k \<Longrightarrow> bit x i = bit y i"
    using 2(2) by (metis bit_take_bit_iff mult_Suc_right)
  have a: "take_bit (8 * k) (drop_bit 8 x) = take_bit (8 * k) (drop_bit 8 y)"
    by (rule bit_word_eqI) (auto simp: bit_simps bits)
  have b: "(ucast x :: byte) = ucast y"
    by (rule bit_word_eqI) (auto simp: bit_simps bits)
  show ?case using 2(1)[OF a] b by simp
qed

lemma be_bytes_from_big_endian:
  "length bs = k \<Longrightarrow> k \<le> 32 \<Longrightarrow> be_bytes k (from_big_endian bs) = bs"
proof (induction bs arbitrary: k rule: rev_induct)
  case Nil
  then show ?case by simp
next
  case (snoc b bs)
  obtain j where k: "k = Suc j" and j: "length bs = j" "j \<le> 32" "j < 32"
    using snoc(2,3) by (cases k) auto
  let ?w = "push_bit 8 (from_big_endian bs) OR (ucast b :: uint256_t)"
  have lo: "(ucast ?w :: byte) = b"
    by (rule bit_word_eqI) (auto simp: bit_simps)
  have hi: "take_bit (8 * j) (drop_bit 8 ?w) = take_bit (8 * j) (from_big_endian bs)"
    using j(3) by (intro bit_word_eqI) (auto simp: bit_simps dest: bit_imp_le_length)
  have "be_bytes j (drop_bit 8 ?w) = be_bytes j (from_big_endian bs)"
    by (rule be_bytes_cong [OF hi])
  then show ?case using snoc(1)[OF j(1,2)] lo
    by (simp add: k from_big_endian_snoc)
qed

lemma be_bytes_nth:
  "i < k \<Longrightarrow> be_bytes k x ! i = ucast (drop_bit (8 * (k - Suc i)) x)"
proof (induction k x rule: be_bytes.induct)
  case (1 x)
  then show ?case by simp
next
  case (2 k x)
  show ?case
  proof (cases "i < k")
    case True
    then have "8 * (k - Suc i) + 8 = 8 * (k - i)" by simp
    with True 2(1) show ?thesis
      by (simp add: nth_append length_be_bytes drop_bit_drop_bit add.commute)
  next
    case False
    with 2(2) have "i = k" by simp
    then show ?thesis by (simp add: nth_append length_be_bytes)
  qed
qed

lemma length_to_big_endian: "length (to_big_endian v) = 32"
  by (simp add: to_big_endian_def length_be_bytes)

lemma from_to_big_endian: "from_big_endian (to_big_endian v) = v"
proof -
  have "take_bit (8 * 32) v = v"
    using take_bit_length_eq [of v] by simp
  then show ?thesis
    by (simp only: to_big_endian_def from_big_endian_be_bytes)
qed

lemma to_from_big_endian: "length bs = 32 \<Longrightarrow> to_big_endian (from_big_endian bs) = bs"
  by (simp add: to_big_endian_def be_bytes_from_big_endian)

lemma low_byte_zero_iff: "(ucast (w :: uint256_t) = (0 :: byte)) = (w mod 256 = 0)"
proof -
  have "(ucast w = (0 :: byte)) = (take_bit 8 w = 0)"
    by (auto simp: bit_eq_iff bit_simps)
  also have "take_bit 8 w = w mod 256"
    by (simp add: take_bit_eq_mod)
  finally show ?thesis .
qed

subsection \<open>Token identities and their integer form\<close>

lemma zero_token_fungible: "wf_TokenType zero_token \<and> isToken zero_token"
  by (simp add: zero_token_def wf_TokenType_def isToken_def)

lemma padded_TokenType:
  "length tok = 21 \<Longrightarrow> to_big_endian (fromTokenType tok) = tok @ replicate 11 0"
  by (simp add: fromTokenType_def to_from_big_endian)

lemma toTokenType_fromTokenType:
  "length tok = 21 \<Longrightarrow> toTokenType (fromTokenType tok) = tok"
  by (simp add: toTokenType_def padded_TokenType)

lemma fromTokenType_low_byte:
  assumes "length tok = 21"
  shows "fromTokenType tok mod 256 = 0"
proof -
  have "to_big_endian (fromTokenType tok) ! 31 = ucast (fromTokenType tok)"
    by (simp add: to_big_endian_def be_bytes_nth)
  moreover have "(tok @ replicate 11 (0 :: byte)) ! 31 = 0"
    using assms by (simp add: nth_append)
  ultimately have "(ucast (fromTokenType tok) :: byte) = 0"
    using padded_TokenType [OF assms] by simp
  then show ?thesis by (simp add: low_byte_zero_iff)
qed

lemma isToken_integer_form:
  assumes "length tok = 21"
  shows "isToken tok = ((fromTokenType tok div 2 ^ 88) mod 256 = 0)"
proof -
  have "to_big_endian (fromTokenType tok) ! 20 = ucast (drop_bit 88 (fromTokenType tok))"
    by (simp add: to_big_endian_def be_bytes_nth)
  moreover have "(tok @ replicate 11 (0 :: byte)) ! 20 = tok ! 20"
    using assms by (simp add: nth_append)
  ultimately have "tok ! 20 = ucast (drop_bit 88 (fromTokenType tok))"
    using padded_TokenType [OF assms] by simp
  then have "isToken tok = (drop_bit 88 (fromTokenType tok) mod 256 = 0)"
    by (simp add: isToken_def low_byte_zero_iff)
  then show ?thesis by (simp add: drop_bit_eq_div)
qed

text \<open>
  Claim C8, as amended. For every 21-byte token identity, \<^verbatim>\<open>isToken\<close> holds if
  and only if the byte at index 20 is zero, which is the same as byte 11 of the
  integer form (the integer form divided by \<open>2 ^ 88\<close>, modulo 256) being zero:
  the identity occupies the 21 most significant bytes of the 32-byte integer.
  The integer form modulo 256 is zero for every identity, fungible or not. The
  conversion identity to integer to identity gives the identity back.
\<close>

theorem TokenType_integer_form:
  assumes "wf_TokenType tok"
  shows "(isToken tok = (tok ! 20 = 0)) \<and>
         (isToken tok = ((fromTokenType tok div 2 ^ 88) mod 256 = 0)) \<and>
         fromTokenType tok mod 256 = 0 \<and>
         toTokenType (fromTokenType tok) = tok"
proof -
  have l: "length tok = 21"
    using assms by (simp add: wf_TokenType_def)
  show ?thesis
    using isToken_integer_form [OF l] fromTokenType_low_byte [OF l]
      toTokenType_fromTokenType [OF l] isToken_def [of tok]
    by blast
qed

theorem TokenType_integer_form_witness:
  "wf_TokenType nft_example \<and> \<not> isToken nft_example \<and>
   fromTokenType nft_example mod 256 = 0 \<and>
   toTokenType (fromTokenType nft_example) = nft_example"
proof -
  have wf: "wf_TokenType nft_example"
    by (simp add: wf_TokenType_def nft_example_def)
  have "\<not> isToken nft_example"
    by (simp add: isToken_def nft_example_def)
  with wf TokenType_integer_form [OF wf] show ?thesis by blast
qed

text \<open>The claim as it was stated fails at the non-fungible identity whose last
  byte is 1: it is not fungible, and its integer form is zero modulo 256.\<close>

theorem isToken_mod_256_counterexample:
  "\<not> (isToken nft_example = (fromTokenType nft_example mod 256 = 0))"
  using fromTokenType_low_byte [of nft_example]
  by (simp add: nft_example_def isToken_def)

subsection \<open>The unordered map\<close>

lemma map_of_umap_modify:
  "map_of (umap_modify m k f) = (\<lambda>x. if x = k then map_option f (map_of m k) else map_of m x)"
  by (induction m) (auto simp: umap_modify_def)

lemma map_of_umap_insert:
  "map_of (umap_insert m (k, v)) =
     (case map_of m k of None \<Rightarrow> (map_of m)(k \<mapsto> v) | Some w \<Rightarrow> map_of m)"
proof (cases "map_of m k")
  case None
  then have "k \<notin> fst ` set m" by (simp add: map_of_eq_None_iff)
  with None show ?thesis
    by (auto simp: umap_insert_def map_add_def split: option.splits)
next
  case (Some w)
  then have "k \<in> fst ` set m" by (metis map_of_eq_None_iff option.distinct(1))
  with Some show ?thesis by (simp add: umap_insert_def)
qed

lemma map_of_add_fungible:
  "isToken tokType \<Longrightarrow>
   map_of (tokenLookup (add L tokType amount)) =
     (map_of (tokenLookup L))
       (tokType \<mapsto> (case map_of (tokenLookup L) tokType of None \<Rightarrow> 0 | Some w \<Rightarrow> w) + amount)"
  by (auto simp: add_def map_of_umap_modify map_of_umap_insert split: option.splits)

lemma nftLookup_add_fungible:
  "isToken tokType \<Longrightarrow> nftLookup (add L tokType amount) = nftLookup L"
  by (simp add: add_def)

subsection \<open>Spending\<close>

text \<open>Where \<^verbatim>\<open>canSpend\<close> returns false, \<^verbatim>\<open>spend\<close> returns false and the tracker
  is left as it was; so it is for a fungible identity that has an entry and an
  amount above the recorded balance.\<close>

lemma spend_when_canSpend_false:
  "(fst (canSpend L tokType amount) = Inr False \<longrightarrow>
      spend L tokType amount = (Inr False, L)) \<and>
   (isToken tokType \<and> fst (tokenValue L tokType) = Inr v \<and> v < amount \<longrightarrow>
      spend L tokType amount = (Inr False, L))"
  by (auto simp: spend_def canSpend_def tokenValue_def hasNFT_def
           split: sum.splits prod.splits if_splits)

text \<open>
  Claim C2. The claim is that \<^verbatim>\<open>spend\<close> returns false and changes nothing
  whenever the amount cannot be spent, in particular for a fungible identity
  and an amount above its balance, the balance of an identity without an entry
  being zero. On the empty tracker the fungible identity of 21 zero bytes has
  no entry, and spending the amount 1 of it does not return false: \<^verbatim>\<open>canSpend\<close>
  asks \<^verbatim>\<open>tokenValue\<close>, whose lookup with \<^verbatim>\<open>unordered_map::at\<close> throws
  \<^verbatim>\<open>std::out_of_range\<close>, and the exception leaves \<^verbatim>\<open>canSpend\<close> and \<^verbatim>\<open>spend\<close>.
  The tracker itself is not changed.
\<close>

theorem spend_absent_entry:
  "isToken zero_token \<and>
   map_of (tokenLookup BalanceTracker_empty) zero_token = None \<and>
   canSpend BalanceTracker_empty zero_token 1 = (Inl OutOfRange, BalanceTracker_empty) \<and>
   spend BalanceTracker_empty zero_token 1 = (Inl OutOfRange, BalanceTracker_empty)"
  using zero_token_fungible
  by (simp add: spend_def canSpend_def tokenValue_def umap_at_def BalanceTracker_empty_def)

subsection \<open>A fungible identity without an entry\<close>

text \<open>
  Claim C3. The claim is that \<^verbatim>\<open>tokenValue\<close> answers zero, without failing, for
  a fungible identity that has no entry. The code looks the identity up with
  \<^verbatim>\<open>unordered_map::at\<close>, which throws for a missing key: on the empty tracker
  the call for the fungible identity of 21 zero bytes ends in
  \<^verbatim>\<open>std::out_of_range\<close>, not in the amount zero.
\<close>

theorem tokenValue_absent_entry:
  "tokenValue BalanceTracker_empty zero_token = (Inl OutOfRange, BalanceTracker_empty)"
  using zero_token_fungible
  by (simp add: tokenValue_def umap_at_def BalanceTracker_empty_def)

subsection \<open>Adding to a fungible balance\<close>

text \<open>
  Claim C7, as amended. For a fungible identity, \<^verbatim>\<open>add\<close> always returns
  normally and the balance stored afterwards is the old balance (zero when
  there was no entry) plus the amount, reduced modulo \<open>2 ^ 256\<close>: there is no
  overflow check, the 256-bit addition wraps.
\<close>

theorem add_wraps:
  assumes "isToken tokType"
  shows "\<exists>v. map_of (tokenLookup (add L tokType amount)) tokType = Some v \<and>
           unat v = ((case map_of (tokenLookup L) tokType of None \<Rightarrow> 0 | Some w \<Rightarrow> unat w)
                      + unat amount) mod 2 ^ 256"
  using assms
  by (auto simp: map_of_add_fungible unat_word_ariths split: option.splits)

theorem add_wraps_witness:
  "isToken zero_token \<and>
   (\<exists>v. map_of (tokenLookup (add \<lparr>tokenLookup = [(zero_token, - 1)], nftLookup = {}\<rparr> zero_token 1))
          zero_token = Some v \<and> unat v = (unat (- 1 :: uint256_t) + unat (1 :: uint256_t)) mod 2 ^ 256)"
  using add_wraps [of zero_token "\<lparr>tokenLookup = [(zero_token, - 1)], nftLookup = {}\<rparr>" 1]
    zero_token_fungible
  by simp

text \<open>The claim as it was stated fails where the stored balance is
  \<open>2 ^ 256 - 1\<close> (the word \<open>- 1\<close>) and 1 is added: the sum exceeds the 256-bit
  bound, the call returns normally and the balance stored is 0.\<close>

theorem add_overflow_counterexample:
  "add \<lparr>tokenLookup = [(zero_token, - 1)], nftLookup = {}\<rparr> zero_token 1 =
     \<lparr>tokenLookup = [(zero_token, 0)], nftLookup = {}\<rparr> \<and>
   unat (- 1 :: uint256_t) + unat (1 :: uint256_t) = 2 ^ 256"
  using zero_token_fungible
  by (simp add: add_def umap_insert_def umap_modify_def unsigned_minus_1_eq_mask
        mask_eq_exp_minus_1)

subsection \<open>Queries leave the tracker as it is\<close>

text \<open>
  Claim C10. The queries \<^verbatim>\<open>tokenValue\<close>, \<^verbatim>\<open>hasNFT\<close> and \<^verbatim>\<open>canSpend\<close> never modify
  the ledger: whatever the ledger, the token identity and the amount, and
  whether the call returns a value or fails, the tracker after the call (its
  map of fungible balances and its set of owned assets) is the tracker before
  the call.
\<close>

theorem queries_frame:
  "snd (tokenValue L tokType) = L \<and>
   snd (hasNFT L tokType amount) = L \<and>
   snd (canSpend L tokType amount) = L"
  by (auto simp: tokenValue_def hasNFT_def canSpend_def umap_at_def
           split: option.splits)

subsection \<open>Decoding a ledger\<close>

lemma decode_loop_done: "decode_loop dat (length dat) L = Inr L"
  by (subst decode_loop.simps) simp

lemma decode_loop_short:
  "current_it \<noteq> length dat \<Longrightarrow> length dat < current_it + 54 \<Longrightarrow>
   decode_loop dat current_it L = Inl OutOfBounds"
  by (subst decode_loop.simps) (simp add: read_range_def)

lemma decode_loop_step:
  "current_it + 54 \<le> length dat \<Longrightarrow>
   decode_loop dat current_it L =
     decode_loop dat (current_it + 54)
       (add L (take 21 (drop current_it dat))
          (from_big_endian (take 32 (drop 1 (take 33 (drop (current_it + 21) dat))))))"
  by (subst decode_loop.simps)
     (simp add: read_range_def deserialize_int256_def add.commute)

lemma decode_loop_total:
  "current_it \<le> length dat \<Longrightarrow> length dat - current_it = 54 * n \<Longrightarrow>
   \<exists>L'. decode_loop dat current_it L = Inr L'"
proof (induction n arbitrary: current_it L)
  case 0
  then have "current_it = length dat" by simp
  then show ?case by (simp add: decode_loop_done)
next
  case (Suc n)
  then have le: "current_it + 54 \<le> length dat"
    and rest: "length dat - (current_it + 54) = 54 * n" by simp_all
  show ?case
    using Suc.IH [OF le rest] by (simp add: decode_loop_step [OF le])
qed

lemma decode_loop_overrun:
  "length dat - current_it = k \<Longrightarrow>
   \<not> (current_it \<le> length dat \<and> 54 dvd (length dat - current_it)) \<Longrightarrow>
   decode_loop dat current_it L = Inl OutOfBounds"
proof (induction k arbitrary: current_it L rule: less_induct)
  case (less k)
  have ne: "current_it \<noteq> length dat" using less.prems(2) by auto
  show ?case
  proof (cases "length dat < current_it + 54")
    case True
    with ne show ?thesis by (rule decode_loop_short)
  next
    case False
    then have le: "current_it + 54 \<le> length dat" by simp
    have "\<not> 54 dvd (length dat - current_it)" using less.prems(2) le by simp
    moreover have "length dat - current_it = (length dat - (current_it + 54)) + 54"
      using le by simp
    ultimately have nd: "\<not> 54 dvd (length dat - (current_it + 54))"
      by (metis dvd_add_triv_right_iff)
    have "length dat - (current_it + 54) < k" using le less.prems(1) by simp
    from less.IH [OF this refl] nd show ?thesis
      by (simp add: decode_loop_step [OF le])
  qed
qed

text \<open>
  Claim C4, as amended. The decoding constructor checks no length. It returns
  a tracker exactly for the buffers that have the 4-byte header followed by a
  whole number of 54-byte entries, and for those it reads inside the buffer
  only. For every other buffer (shorter than the header, or with a remainder
  that is no multiple of 54) it reads past the end of the buffer; no malformed
  data error is reported.
\<close>

theorem BalanceTracker_from_unchecked:
  "(4 \<le> length dat \<and> 54 dvd (length dat - 4) \<longrightarrow> (\<exists>L. BalanceTracker_from dat = Inr L)) \<and>
   (\<not> (4 \<le> length dat \<and> 54 dvd (length dat - 4)) \<longrightarrow> BalanceTracker_from dat = Inl OutOfBounds)"
proof (intro conjI impI)
  assume a: "4 \<le> length dat \<and> 54 dvd (length dat - 4)"
  then obtain n where "length dat - 4 = 54 * n" by (auto simp: dvd_def)
  with a show "\<exists>L. BalanceTracker_from dat = Inr L"
    unfolding BalanceTracker_from_def by (intro decode_loop_total) auto
next
  assume "\<not> (4 \<le> length dat \<and> 54 dvd (length dat - 4))"
  then show "BalanceTracker_from dat = Inl OutOfBounds"
    unfolding BalanceTracker_from_def by (intro decode_loop_overrun [OF refl])
qed

theorem BalanceTracker_from_unchecked_witness:
  "(\<exists>L. BalanceTracker_from [0, 0, 0, 0] = Inr L) \<and>
   BalanceTracker_from [0, 0, 0] = Inl OutOfBounds"
  using BalanceTracker_from_unchecked [of "[0, 0, 0, 0]"]
    BalanceTracker_from_unchecked [of "[0, 0, 0]"]
  by simp

text \<open>The claim as it was stated fails for a buffer with one byte after the
  header: the loop reads a 21-byte identity past the end of the buffer.\<close>

theorem BalanceTracker_from_overrun_counterexample:
  "BalanceTracker_from [1, 0, 0, 0, 7] = Inl OutOfBounds"
  by (simp add: BalanceTracker_from_def decode_loop_short)

subsection \<open>Round trip of the ledger codec\<close>

lemma length_length_vector: "length (length_vector n) = 4"
  by (simp add: length_vector_def Let_def)

lemma length_serialize_pair:
  "length (fst pair) = 21 \<Longrightarrow> length (serialize_pair pair) = 54"
  by (simp add: serialize_pair_def marshal_uint256_t_def length_to_big_endian)

lemma decode_loop_pair:
  assumes "length k = 21"
  shows "decode_loop (pre @ serialize_pair (k, v) @ rest) (length pre) L =
         decode_loop (pre @ serialize_pair (k, v) @ rest) (length pre + 54) (add L k v)"
proof -
  have le: "length pre + 54 \<le> length (pre @ serialize_pair (k, v) @ rest)"
    using assms by (simp add: length_serialize_pair)
  have key: "take 21 (drop (length pre) (pre @ serialize_pair (k, v) @ rest)) = k"
    using assms by (simp add: serialize_pair_def)
  have "take 33 (drop (length pre + 21) (pre @ serialize_pair (k, v) @ rest)) = NUM # to_big_endian v"
    using assms by (simp add: serialize_pair_def marshal_uint256_t_def length_to_big_endian)
  then have val: "from_big_endian (take 32 (drop 1
      (take 33 (drop (length pre + 21) (pre @ serialize_pair (k, v) @ rest))))) = v"
    by (simp add: length_to_big_endian from_to_big_endian)
  show ?thesis
    by (simp only: decode_loop_step [OF le] key val)
qed

lemma decode_loop_pairs:
  "\<forall>pair \<in> set es. length (fst pair) = 21 \<Longrightarrow>
   decode_loop (pre @ concat (map serialize_pair es)) (length pre) L =
     Inr (foldl (\<lambda>L' pair. add L' (fst pair) (snd pair)) L es)"
proof (induction es arbitrary: pre L)
  case Nil
  then show ?case using decode_loop_done [of pre L] by simp
next
  case (Cons e es)
  obtain k v where e: "e = (k, v)" by (cases e)
  have k: "length k = 21" using Cons.prems e by simp
  have rest: "\<forall>pair \<in> set es. length (fst pair) = 21" using Cons.prems by simp
  have len: "length (pre @ serialize_pair (k, v)) = length pre + 54"
    using k by (simp add: length_serialize_pair)
  have "decode_loop (pre @ concat (map serialize_pair (e # es))) (length pre) L =
        decode_loop (pre @ serialize_pair (k, v) @ concat (map serialize_pair es)) (length pre + 54)
          (add L k v)"
    using decode_loop_pair [OF k, of pre v "concat (map serialize_pair es)" L] by (simp add: e)
  also have "\<dots> = decode_loop ((pre @ serialize_pair (k, v)) @ concat (map serialize_pair es))
          (length (pre @ serialize_pair (k, v))) (add L k v)"
    by (simp only: len append_assoc)
  also have "\<dots> = Inr (foldl (\<lambda>L' pair. add L' (fst pair) (snd pair)) (add L k v) es)"
    by (rule Cons.IH [OF rest])
  finally show ?case by (simp add: e)
qed

lemma foldl_add_fungible:
  "\<forall>pair \<in> set es. isToken (fst pair) \<Longrightarrow> distinct (map fst es) \<Longrightarrow>
   \<forall>pair \<in> set es. map_of (tokenLookup L) (fst pair) = None \<Longrightarrow>
   map_of (tokenLookup (foldl (\<lambda>L' pair. add L' (fst pair) (snd pair)) L es)) =
     map_of (tokenLookup L) ++ map_of es \<and>
   nftLookup (foldl (\<lambda>L' pair. add L' (fst pair) (snd pair)) L es) = nftLookup L"
proof (induction es arbitrary: L)
  case Nil
  then show ?case by simp
next
  case (Cons e es)
  obtain k v where e: "e = (k, v)" by (cases e)
  let ?L1 = "add L k v"
  have k: "isToken k" and absent: "map_of (tokenLookup L) k = None"
    using Cons.prems e by simp_all
  have m1: "map_of (tokenLookup ?L1) = (map_of (tokenLookup L))(k \<mapsto> v)"
    using absent by (simp add: map_of_add_fungible [OF k])
  have knot: "k \<notin> fst ` set es" using Cons.prems(2) e by simp
  have fresh: "\<forall>pair \<in> set es. map_of (tokenLookup ?L1) (fst pair) = None"
    using Cons.prems(3) knot by (auto simp: m1)
  have ih: "map_of (tokenLookup (foldl (\<lambda>L' pair. add L' (fst pair) (snd pair)) ?L1 es)) =
              map_of (tokenLookup ?L1) ++ map_of es \<and>
            nftLookup (foldl (\<lambda>L' pair. add L' (fst pair) (snd pair)) ?L1 es) = nftLookup ?L1"
    using Cons.prems by (intro Cons.IH fresh) simp_all
  have none: "map_of es k = None" using knot by (simp add: map_of_eq_None_iff)
  have eq: "(map_of (tokenLookup L))(k \<mapsto> v) ++ map_of es = map_of (tokenLookup L) ++ map_of (e # es)"
    using none by (auto simp: e map_add_def fun_eq_iff split: option.splits)
  have unfold: "foldl (\<lambda>L' pair. add L' (fst pair) (snd pair)) L (e # es) =
                foldl (\<lambda>L' pair. add L' (fst pair) (snd pair)) ?L1 es"
    by (simp add: e)
  have "map_of (tokenLookup (foldl (\<lambda>L' pair. add L' (fst pair) (snd pair)) ?L1 es)) =
          map_of (tokenLookup ?L1) ++ map_of es"
    using ih by (rule conjunct1)
  also have "\<dots> = map_of (tokenLookup L) ++ map_of (e # es)"
    by (simp only: m1 eq)
  finally have maps: "map_of (tokenLookup (foldl (\<lambda>L' pair. add L' (fst pair) (snd pair)) ?L1 es)) =
          map_of (tokenLookup L) ++ map_of (e # es)" .
  have "nftLookup (foldl (\<lambda>L' pair. add L' (fst pair) (snd pair)) ?L1 es) = nftLookup L"
    using ih nftLookup_add_fungible [OF k, of L v] by (simp only:)
  with maps show ?case
    by (simp only: unfold simp_thms)
qed

text \<open>
  Claim C6. For every tracker whose fungible entries have distinct keys that
  are 21-byte fungible identities, decoding the serialized tracker succeeds and
  gives a tracker with the same fungible balances: the same identities, each
  with the same amount. It owns no asset.
\<close>

theorem ledger_roundtrip:
  assumes "distinct (map fst (tokenLookup L))"
    and "\<forall>pair \<in> set (tokenLookup L). wf_TokenType (fst pair) \<and> isToken (fst pair)"
  shows "\<exists>L'. BalanceTracker_from (serializeBalanceValues L) = Inr L' \<and>
           map_of (tokenLookup L') = map_of (tokenLookup L) \<and> nftLookup L' = {}"
proof -
  let ?es = "tokenLookup L"
  let ?hd = "length_vector (length ?es)"
  let ?L' = "foldl (\<lambda>L' pair. add L' (fst pair) (snd pair)) BalanceTracker_empty ?es"
  have wf: "\<forall>pair \<in> set ?es. length (fst pair) = 21"
    using assms(2) by (simp add: wf_TokenType_def)
  have "decode_loop (?hd @ concat (map serialize_pair ?es)) (length ?hd) BalanceTracker_empty = Inr ?L'"
    by (rule decode_loop_pairs [OF wf])
  then have dec: "BalanceTracker_from (serializeBalanceValues L) = Inr ?L'"
    by (simp add: BalanceTracker_from_def serializeBalanceValues_def length_length_vector)
  have "map_of (tokenLookup ?L') = map_of (tokenLookup BalanceTracker_empty) ++ map_of ?es \<and>
        nftLookup ?L' = nftLookup BalanceTracker_empty"
    using assms by (intro foldl_add_fungible) (simp_all add: BalanceTracker_empty_def)
  then have "map_of (tokenLookup ?L') = map_of ?es \<and> nftLookup ?L' = {}"
    by (simp add: BalanceTracker_empty_def)
  with dec show ?thesis by blast
qed

theorem ledger_roundtrip_witness:
  "distinct (map fst (tokenLookup ledger_example)) \<and>
   wf_TokenType zero_token \<and> isToken zero_token \<and>
   (\<exists>L'. BalanceTracker_from (serializeBalanceValues ledger_example) = Inr L' \<and>
      map_of (tokenLookup L') zero_token = Some 100 \<and> nftLookup L' = {})"
proof -
  have d: "distinct (map fst (tokenLookup ledger_example))"
    by (simp add: ledger_example_def)
  have f: "\<forall>pair \<in> set (tokenLookup ledger_example). wf_TokenType (fst pair) \<and> isToken (fst pair)"
    using zero_token_fungible by (simp add: ledger_example_def)
  from ledger_roundtrip [OF d f] obtain L' where
    "BalanceTracker_from (serializeBalanceValues ledger_example) = Inr L'"
    "map_of (tokenLookup L') = map_of (tokenLookup ledger_example)" "nftLookup L' = {}"
    by blast
  then have "BalanceTracker_from (serializeBalanceValues ledger_example) = Inr L' \<and>
      map_of (tokenLookup L') zero_token = Some 100 \<and> nftLookup L' = {}"
    by (simp add: ledger_example_def)
  with d zero_token_fungible show ?thesis by blast
qed

subsection \<open>Decoding a block reason\<close>

lemma to_BlockType_Some: "(to_BlockType b = Some ty) = (b = BlockType_code ty)"
  by (cases ty) (auto simp: to_BlockType_def)

lemma to_BlockType_None: "(to_BlockType b = None) = (\<forall>ty. b \<noteq> BlockType_code ty)"
  by (metis to_BlockType_Some not_Some_eq)

lemma to_BlockType_code: "to_BlockType (BlockType_code ty) = Some ty"
  by (simp add: to_BlockType_Some)

lemma deserializeBlockReason_payload:
  "to_BlockType b = Some Inbox \<or> to_BlockType b = Some Send \<Longrightarrow>
   deserializeBlockReason (b # bs) = Inl OutOfBounds"
  by (auto simp: deserializeBlockReason_def read_range_def deserialize_int256_def
           split: sum.splits)

lemma deserializeBlockReason_empty: "deserializeBlockReason [] = Inl OutOfBounds"
  by (simp add: deserializeBlockReason_def)

lemma deserializeBlockReason_unknown:
  "to_BlockType b = None \<Longrightarrow> deserializeBlockReason (b # bs) = Inl MissingReturn"
  by (simp add: deserializeBlockReason_def)

lemma deserializeBlockReason_plain:
  "deserializeBlockReason (0 # bs) = Inr NotBlocked"
  "deserializeBlockReason (1 # bs) = Inr HaltBlocked"
  "deserializeBlockReason (2 # bs) = Inr ErrorBlocked"
  "deserializeBlockReason (3 # bs) = Inr BreakpointBlocked"
  by (simp_all add: deserializeBlockReason_def to_BlockType_def)

lemma deserializeBlockReason_success:
  assumes "deserializeBlockReason dat = Inr r"
  shows "dat \<noteq> [] \<and> hd dat = BlockType_code (reason_type r) \<and>
         blockreason_type_length (reason_type r) \<le> length dat"
proof (cases dat)
  case Nil
  with assms show ?thesis by (simp add: deserializeBlockReason_empty)
next
  case (Cons b bs)
  show ?thesis
  proof (cases "to_BlockType b")
    case None
    with assms Cons show ?thesis by (simp add: deserializeBlockReason_unknown)
  next
    case (Some ty)
    then have b: "b = BlockType_code ty" by (simp add: to_BlockType_Some)
    show ?thesis
    proof (cases "ty = Inbox \<or> ty = Send")
      case True
      with Some have "deserializeBlockReason (b # bs) = Inl OutOfBounds"
        by (intro deserializeBlockReason_payload) auto
      with assms Cons show ?thesis by simp
    next
      case False
      with assms Cons b show ?thesis
        by (cases ty) (auto simp: deserializeBlockReason_plain)
    qed
  qed
qed

text \<open>The four variants without payload are decoded from their encoding.\<close>

lemma plain_reason_roundtrip:
  "reason_type r \<noteq> Inbox \<Longrightarrow> reason_type r \<noteq> Send \<Longrightarrow>
   deserializeBlockReason (SerializeBlockReason r) = Inr r"
  by (cases r) (simp_all add: deserializeBlockReason_plain)

text \<open>
  Claim C1. The claim is that decoding the encoding of a block reason gives the
  block reason back, for each of the six variants. For \<^verbatim>\<open>InboxBlocked\<close> with
  inbox 5 the encoding is the tag, the format byte and the 32 bytes of the
  magnitude, 34 bytes in all. The decoder hands the integer codec the bytes
  \<open>[2, 33)\<close> of it, a window of 31 bytes that holds the first 31 bytes of the
  magnitude and not its last byte at index 33, where the 5 is: the integer is
  read past the end of that window and the inbox is not recovered.
\<close>

theorem InboxBlocked_roundtrip_fails:
  "SerializeBlockReason (InboxBlocked 5) = BlockType_code Inbox # NUM # to_big_endian 5 \<and>
   length (SerializeBlockReason (InboxBlocked 5)) = 34 \<and>
   read_range (SerializeBlockReason (InboxBlocked 5)) 2 33 = Inr (take 31 (to_big_endian 5)) \<and>
   deserializeBlockReason (SerializeBlockReason (InboxBlocked 5)) = Inl OutOfBounds"
  by (simp add: marshal_uint256_t_def length_to_big_endian deserializeBlockReason_payload
        to_BlockType_def read_range_def)

text \<open>
  Claim C5, as amended. The decoder checks neither the tag nor the length. On
  an empty buffer it reads the tag past the end of the buffer. On a first byte
  that is none of the six tags it leaves the function without returning a
  value. On a buffer shorter than the length of its tag (34 for \<^verbatim>\<open>Inbox\<close>, 55
  for \<^verbatim>\<open>Send\<close>) it reads past the end. For the four tags without payload it
  returns the variant of the tag whenever the buffer is not empty. Whenever it
  returns a value, the buffer starts with the tag of that value and is at least
  as long as the length of the tag.
\<close>

theorem deserializeBlockReason_unchecked:
  "(dat = [] \<longrightarrow> deserializeBlockReason dat = Inl OutOfBounds) \<and>
   (dat \<noteq> [] \<and> (\<forall>ty. hd dat \<noteq> BlockType_code ty) \<longrightarrow>
      deserializeBlockReason dat = Inl MissingReturn) \<and>
   (dat \<noteq> [] \<and> hd dat = BlockType_code ty \<and> length dat < blockreason_type_length ty \<longrightarrow>
      deserializeBlockReason dat = Inl OutOfBounds) \<and>
   (dat \<noteq> [] \<and> hd dat = BlockType_code Not \<longrightarrow> deserializeBlockReason dat = Inr NotBlocked) \<and>
   (dat \<noteq> [] \<and> hd dat = BlockType_code Halt \<longrightarrow> deserializeBlockReason dat = Inr HaltBlocked) \<and>
   (dat \<noteq> [] \<and> hd dat = BlockType_code Error \<longrightarrow> deserializeBlockReason dat = Inr ErrorBlocked) \<and>
   (dat \<noteq> [] \<and> hd dat = BlockType_code Breakpoint \<longrightarrow>
      deserializeBlockReason dat = Inr BreakpointBlocked) \<and>
   (deserializeBlockReason dat = Inr r \<longrightarrow>
      dat \<noteq> [] \<and> hd dat = BlockType_code (reason_type r) \<and>
      blockreason_type_length (reason_type r) \<le> length dat)"
proof (intro conjI impI)
  assume "dat = []"
  then show "deserializeBlockReason dat = Inl OutOfBounds"
    by (simp add: deserializeBlockReason_empty)
next
  assume "dat \<noteq> [] \<and> (\<forall>ty. hd dat \<noteq> BlockType_code ty)"
  then show "deserializeBlockReason dat = Inl MissingReturn"
    by (cases dat) (simp_all add: deserializeBlockReason_unknown to_BlockType_None)
next
  assume a: "dat \<noteq> [] \<and> hd dat = BlockType_code ty \<and> length dat < blockreason_type_length ty"
  then obtain bs where dat: "dat = BlockType_code ty # bs" by (cases dat) auto
  with a have "ty = Inbox \<or> ty = Send" by (cases ty) auto
  then show "deserializeBlockReason dat = Inl OutOfBounds"
    unfolding dat by (intro deserializeBlockReason_payload) (auto simp: to_BlockType_code)
next
  assume "dat \<noteq> [] \<and> hd dat = BlockType_code Not"
  then show "deserializeBlockReason dat = Inr NotBlocked"
    by (cases dat) (simp_all add: deserializeBlockReason_plain)
next
  assume "dat \<noteq> [] \<and> hd dat = BlockType_code Halt"
  then show "deserializeBlockReason dat = Inr HaltBlocked"
    by (cases dat) (simp_all add: deserializeBlockReason_plain)
next
  assume "dat \<noteq> [] \<and> hd dat = BlockType_code Error"
  then show "deserializeBlockReason dat = Inr ErrorBlocked"
    by (cases dat) (simp_all add: deserializeBlockReason_plain)
next
  assume "dat \<noteq> [] \<and> hd dat = BlockType_code Breakpoint"
  then show "deserializeBlockReason dat = Inr BreakpointBlocked"
    by (cases dat) (simp_all add: deserializeBlockReason_plain)
next
  assume "deserializeBlockReason dat = Inr r"
  then show "dat \<noteq> []"
    by (simp add: deserializeBlockReason_success)
next
  assume "deserializeBlockReason dat = Inr r"
  then show "hd dat = BlockType_code (reason_type r)"
    by (simp add: deserializeBlockReason_success)
next
  assume "deserializeBlockReason dat = Inr r"
  then show "blockreason_type_length (reason_type r) \<le> length dat"
    by (simp add: deserializeBlockReason_success)
qed

theorem deserializeBlockReason_unchecked_witness:
  "deserializeBlockReason [] = Inl OutOfBounds \<and>
   deserializeBlockReason [255] = Inl MissingReturn \<and>
   deserializeBlockReason [BlockType_code Send, 0, 0] = Inl OutOfBounds \<and>
   deserializeBlockReason [BlockType_code Not] = Inr NotBlocked \<and>
   deserializeBlockReason [BlockType_code Halt] = Inr HaltBlocked \<and>
   deserializeBlockReason [BlockType_code Error] = Inr ErrorBlocked \<and>
   deserializeBlockReason [BlockType_code Breakpoint] = Inr BreakpointBlocked \<and>
   blockreason_type_length (reason_type HaltBlocked) \<le> length [BlockType_code Halt]"
proof -
  have unknown: "\<forall>ty. (255 :: byte) \<noteq> BlockType_code ty"
  proof
    fix ty show "(255 :: byte) \<noteq> BlockType_code ty" by (cases ty) simp_all
  qed
  show ?thesis
    using deserializeBlockReason_unchecked [of "[]"]
      deserializeBlockReason_unchecked [of "[255]"] unknown
      deserializeBlockReason_unchecked [of "[BlockType_code Send, 0, 0]" Send]
      deserializeBlockReason_unchecked [of "[BlockType_code Not]"]
      deserializeBlockReason_unchecked [of "[BlockType_code Halt]" _ HaltBlocked]
      deserializeBlockReason_unchecked [of "[BlockType_code Error]"]
      deserializeBlockReason_unchecked [of "[BlockType_code Breakpoint]"]
    by simp
qed

text \<open>The claim as it was stated fails for a \<^verbatim>\<open>Send\<close> buffer of three bytes:
  the decoder reads past the end of it.\<close>

theorem deserializeBlockReason_truncated_counterexample:
  "length [BlockType_code Send, 0, 0] < blockreason_type_length Send \<and>
   deserializeBlockReason [BlockType_code Send, 0, 0] = Inl OutOfBounds"
  by (simp add: deserializeBlockReason_payload to_BlockType_def)

subsection \<open>Decoding a message\<close>

lemma length_four: "length xs = 4 \<Longrightarrow> \<exists>a b c d. xs = [a, b, c, d]"
  by (auto simp: eval_nat_numeral length_Suc_conv)

lemma Message_deserialize_accepts:
  "fst (Message_deserialize m val) =
     (\<exists>d destInt currencyAmountInt tokTypeInt.
        val = Tuple [d, Num destInt, Num currencyAmountInt, Num tokTypeInt])"
proof (cases val)
  case (Tuple msgTup)
  show ?thesis
  proof (cases "length msgTup = 4")
    case True
    then obtain a b c d where "msgTup = [a, b, c, d]"
      using length_four by blast
    with Tuple show ?thesis
      by (auto simp: Message_deserialize_def split: avm_value.splits)
  next
    case False
    with Tuple show ?thesis
      by (auto simp: Message_deserialize_def)
  qed
qed (simp_all add: Message_deserialize_def)

lemma Message_deserialize_rejected:
  "\<not> fst (Message_deserialize m val) \<Longrightarrow> snd (Message_deserialize m val) = m"
  by (auto simp: Message_deserialize_def split: avm_value.splits if_splits)

text \<open>
  Claim C9. \<^verbatim>\<open>Message::deserialize\<close> returns false exactly when the value is
  not a tuple of four elements whose elements 1, 2 and 3 are integers, and
  whenever it returns false the message is left as it was: \<^verbatim>\<open>data\<close>,
  \<^verbatim>\<open>destination\<close>, \<^verbatim>\<open>currency\<close> and \<^verbatim>\<open>token\<close> are unchanged.
\<close>

theorem Message_deserialize_negative:
  "(\<not> fst (Message_deserialize m val)) =
     (\<not> (\<exists>d destInt currencyAmountInt tokTypeInt.
            val = Tuple [d, Num destInt, Num currencyAmountInt, Num tokTypeInt])) \<and>
   (\<not> fst (Message_deserialize m val) \<longrightarrow> snd (Message_deserialize m val) = m)"
  using Message_deserialize_accepts [of m val] Message_deserialize_rejected [of m val]
  by blast

theorem Message_deserialize_negative_witness:
  "\<not> fst (Message_deserialize message_example (Tuple [CodePoint 0, Num 3, Tuple [], Num 4])) \<and>
   snd (Message_deserialize message_example (Tuple [CodePoint 0, Num 3, Tuple [], Num 4])) =
     message_example"
  using Message_deserialize_negative
    [of message_example "Tuple [CodePoint 0, Num 3, Tuple [], Num 4]"]
  by simp

end
